theory Spec2Isabelle
  imports Main "HOL-Library.Multiset"
begin

section \<open>The outliner: errors of the external parser\<close>

text \<open>
  JavaScript strings are sequences of code units; \<open>String.prototype.indexOf\<close> returns the
  index of the first occurrence of the search string, or \<open>-1\<close> when there is none.
  \<open>startsWith s p\<close> says that \<open>p\<close> occurs in \<open>s\<close> at index 0.
\<close>

fun startsWith :: "string \<Rightarrow> string \<Rightarrow> bool" where
  "startsWith s [] = True"
| "startsWith [] (p # ps) = False"
| "startsWith (c # cs) (p # ps) = (c = p \<and> startsWith cs ps)"

fun indexOf_from :: "nat \<Rightarrow> string \<Rightarrow> string \<Rightarrow> int" where
  "indexOf_from i [] p = (if p = [] then int i else - 1)"
| "indexOf_from i (c # cs) p =
     (if startsWith (c # cs) p then int i else indexOf_from (Suc i) cs p)"

definition indexOf :: "string \<Rightarrow> string \<Rightarrow> int" where
  "indexOf s p = indexOf_from 0 s p"

text \<open>An \<open>Error\<close> object, as far as the outliner reads it: its message.\<close>

record Error =
  message :: string

definition ginkgoImportsNotFoundError :: string where
  "ginkgoImportsNotFoundError =
     ''error creating outline: file does not import \"github.com/onsi/ginkgo\" or \"github.com/onsi/ginkgo/extensions/table\"''"

text \<open>
  \<open>isGinkgoImportsNotFoundError\<close>: an empty message is falsy and gives \<open>false\<close>; otherwise
  the result is \<open>indexOf(...) > 0\<close>.
\<close>

definition isGinkgoImportsNotFoundError :: "Error \<Rightarrow> bool" where
  "isGinkgoImportsNotFoundError err =
     (if message err = [] then False
      else indexOf (message err) ginkgoImportsNotFoundError > 0)"

section \<open>The outliner: building the outline\<close>

datatype Error_kind = TypeError

text \<open>
  A node record as the external parser prints it (fields \<open>name, text, start, end, spec,
  focused, pending, nodes\<close>). The field \<open>nodes\<close> may be absent from a record: \<open>None\<close>.
\<close>

datatype json_node = JsonNode (j_name: string) (j_text: string) (j_start: int) (j_end: int)
  (j_spec: bool) (j_focused: bool) (j_pending: bool) (j_nodes: "json_node list option")

text \<open>
  \<open>GinkgoNode\<close>: an object on the heap. \<open>ref\<close> is the address of the object, so that two
  nodes are reference-equal iff their \<open>ref\<close> is the same. The metadata and \<open>nodes\<close> are
  never written after parsing and are part of the value; the field \<open>parent\<close>, which the
  builder writes, lives in the heap: \<open>h a\<close> is the address stored in the \<open>parent\<close> field
  of the object at address \<open>a\<close>, \<open>None\<close> while the field is undefined.
\<close>

datatype GinkgoNode = GinkgoNode (ref: nat) (name: string) (text': string) (start: int) (end': int)
  (spec: bool) (focused: bool) (pending: bool) (nodes: "GinkgoNode list option")

type_synonym heap = "nat \<Rightarrow> nat option"

record Outline =
  nested :: "GinkgoNode list"
  flat :: "GinkgoNode list"

text \<open>
  \<open>JSON.parse\<close> creates one fresh object per record: the counter is the next unused
  address. An absent \<open>nodes\<close> stays absent.
\<close>

fun JSON_parse_node :: "nat \<Rightarrow> json_node \<Rightarrow> GinkgoNode \<times> nat"
and JSON_parse_nodes :: "nat \<Rightarrow> json_node list \<Rightarrow> GinkgoNode list \<times> nat" where
  "JSON_parse_node k (JsonNode n t s e sp fo pe js) =
     (case js of
        None \<Rightarrow> (GinkgoNode k n t s e sp fo pe None, Suc k)
      | Some cs \<Rightarrow> (case JSON_parse_nodes (Suc k) cs of
                     (ns, k') \<Rightarrow> (GinkgoNode k n t s e sp fo pe (Some ns), k')))"
| "JSON_parse_nodes k [] = ([], k)"
| "JSON_parse_nodes k (j # js) =
     (case JSON_parse_node k j of
        (n, k1) \<Rightarrow> (case JSON_parse_nodes k1 js of (ns, k2) \<Rightarrow> (n # ns, k2)))"

definition JSON_parse :: "json_node list \<Rightarrow> GinkgoNode list" where
  "JSON_parse input = fst (JSON_parse_nodes 0 input)"

text \<open>
  \<open>preOrder(node, f)\<close>: call \<open>f\<close> on the node, then, if \<open>node.nodes\<close> is truthy (an array,
  also an empty one), recurse into each child in order. The callback works on a state
  \<open>'s\<close> and may throw; an exception ends the traversal. \<open>preOrder_each\<close> is the
  \<open>for (let c of ...)\<close> loop over a list of nodes.
\<close>

fun preOrder :: "GinkgoNode \<Rightarrow> (GinkgoNode \<Rightarrow> 's \<Rightarrow> Error_kind + 's) \<Rightarrow> 's \<Rightarrow> Error_kind + 's"
and preOrder_each :: "GinkgoNode list \<Rightarrow> (GinkgoNode \<Rightarrow> 's \<Rightarrow> Error_kind + 's) \<Rightarrow> 's \<Rightarrow> Error_kind + 's" where
  "preOrder (GinkgoNode r n t s e sp fo pe ns) f st =
     (case f (GinkgoNode r n t s e sp fo pe ns) st of
        Inl err \<Rightarrow> Inl err
      | Inr st1 \<Rightarrow> (case ns of None \<Rightarrow> Inr st1 | Some cs \<Rightarrow> preOrder_each cs f st1))"
| "preOrder_each [] f st = Inr st"
| "preOrder_each (c # cs) f st =
     (case preOrder c f st of Inl err \<Rightarrow> Inl err | Inr st1 \<Rightarrow> preOrder_each cs f st1)"

text \<open>
  The callback of \<open>fromJSON\<close>, on the pair of the \<open>flat\<close> array and the heap: push the
  node, then \<open>for (let c of n.nodes) c.parent = n\<close>. Iterating an undefined \<open>n.nodes\<close>
  throws a \<open>TypeError\<close>.
\<close>

definition set_parent :: "GinkgoNode \<Rightarrow> GinkgoNode \<Rightarrow> heap \<Rightarrow> heap" where
  "set_parent n c h = h(ref c \<mapsto> ref n)"

definition annotate :: "GinkgoNode \<Rightarrow> GinkgoNode list \<times> heap \<Rightarrow> Error_kind + GinkgoNode list \<times> heap" where
  "annotate n st =
     (case st of (fl, h) \<Rightarrow>
        (case nodes n of
           None \<Rightarrow> Inl TypeError
         | Some cs \<Rightarrow> Inr (fl @ [n], fold (set_parent n) cs h)))"

definition fromJSON :: "json_node list \<Rightarrow> Error_kind + Outline \<times> heap" where
  "fromJSON input =
     (let ns = JSON_parse input in
      case preOrder_each ns annotate ([], Map.empty) of
        Inl err \<Rightarrow> Inl err
      | Inr (fl, h) \<Rightarrow> Inr (\<lparr>nested = ns, flat = fl\<rparr>, h))"

section \<open>The tree data provider\<close>

datatype UpdateOn = onSave | onType

record TextDocument =
  uri :: string
  languageId :: string

text \<open>\<open>viewColumn\<close> is undefined (\<open>None\<close>) for an editor that is not one of the main editors.\<close>

record TextEditor =
  document :: TextDocument
  viewColumn :: "nat option"

text \<open>Of a change event only the document and the number of content changes are read.\<close>

record TextDocumentChangeEvent =
  evt_document :: TextDocument
  contentChanges :: "string list"

text \<open>
  The fields of the provider, followed by the part of its environment that its methods
  act on. \<open>updateListener\<close> is the event stream the current, undisposed listener is
  subscribed to. \<open>documentChangedTimer\<close> is a timer handle. The environment: \<open>timers\<close>
  are the pending timers of the runtime, each a handle with the time it is due (every
  timer the provider starts has the same callback, one \<open>fire\<close>); \<open>nextTimer\<close> is the
  next unused handle; \<open>refreshes\<close> counts the calls of \<open>_onDidChangeTreeData.fire\<close>,
  \<open>errorMessages\<close> those of \<open>showErrorMessage\<close>, \<open>outputLines\<close> the lines appended to
  the output channel and \<open>parserCalls\<close> the calls of the injected \<open>outlineFromDoc\<close>.
  Times and durations are whole milliseconds.
\<close>

record TreeDataProvider =
  updateListener :: "UpdateOn option"
  editor :: "TextEditor option"
  roots :: "GinkgoNode list"
  lastClickedNode :: "GinkgoNode option"
  lastClickedTime :: "int option"
  documentChangedTimer :: "nat option"
  updateOnTypeDelay :: int
  doubleClickThreshold :: int
  timers :: "(nat \<times> int) list"
  nextTimer :: nat
  refreshes :: nat
  errorMessages :: nat
  outputLines :: nat
  parserCalls :: nat

definition fire :: "TreeDataProvider \<Rightarrow> TreeDataProvider" where
  "fire p = p\<lparr>refreshes := refreshes p + 1\<rparr>"

text \<open>
  \<open>setTimeout\<close> of the runtime (the handle is a \<open>NodeJS.Timeout\<close>): a delay below 1 ms or
  above 2147483647 ms is run as 1 ms, every other delay as it is (\<open>timer_delay\<close>). At time
  \<open>now\<close> the call queues a timer due at \<open>now\<close> plus that delay and returns its handle;
  \<open>clearTimeout\<close> removes the timer with the handle, if it is still pending. A handle is
  an object, so a stored handle is truthy. The clock is virtual: a timer fires once the
  clock has reached the time it is due.
\<close>

definition timer_delay :: "int \<Rightarrow> int" where
  "timer_delay delay = (if 1 \<le> delay \<and> delay \<le> 2147483647 then delay else 1)"

definition setTimeout :: "int \<Rightarrow> int \<Rightarrow> TreeDataProvider \<Rightarrow> nat \<times> TreeDataProvider" where
  "setTimeout now delay p =
     (nextTimer p, p\<lparr>timers := timers p @ [(nextTimer p, now + timer_delay delay)],
                      nextTimer := Suc (nextTimer p)\<rparr>)"

definition clearTimeout :: "nat \<Rightarrow> TreeDataProvider \<Rightarrow> TreeDataProvider" where
  "clearTimeout handle p = p\<lparr>timers := filter (\<lambda>t. fst t \<noteq> handle) (timers p)\<rparr>"

text \<open>
  \<open>setUpdateOn\<close> disposes the previous listener, if any, and subscribes a new one to the
  stream of the given mode. It touches no other field.
\<close>

definition setUpdateOn :: "UpdateOn \<Rightarrow> TreeDataProvider \<Rightarrow> TreeDataProvider" where
  "setUpdateOn mode p =
     (let p1 = (case updateListener p of Some l \<Rightarrow> p\<lparr>updateListener := None\<rparr> | None \<Rightarrow> p)
      in case mode of
           onType \<Rightarrow> p1\<lparr>updateListener := Some onType\<rparr>
         | onSave \<Rightarrow> p1\<lparr>updateListener := Some onSave\<rparr>)"

definition setUpdateOnTypeDelay :: "int \<Rightarrow> TreeDataProvider \<Rightarrow> TreeDataProvider" where
  "setUpdateOnTypeDelay delay p = p\<lparr>updateOnTypeDelay := max delay 0\<rparr>"

definition setDoubleClickThreshold :: "int \<Rightarrow> TreeDataProvider \<Rightarrow> TreeDataProvider" where
  "setDoubleClickThreshold threshold p = p\<lparr>doubleClickThreshold := max threshold 0\<rparr>"

text \<open>The constructor, given the active editor of the window and the three settings.\<close>

definition new_TreeDataProvider ::
  "TextEditor option \<Rightarrow> UpdateOn \<Rightarrow> int \<Rightarrow> int \<Rightarrow> TreeDataProvider" where
  "new_TreeDataProvider activeTextEditor mode delay threshold =
     setUpdateOnTypeDelay delay (setUpdateOn mode
       \<lparr>updateListener = None, editor = activeTextEditor, roots = [],
        lastClickedNode = None, lastClickedTime = None, documentChangedTimer = None,
        updateOnTypeDelay = delay, doubleClickThreshold = threshold,
        timers = [], nextTimer = 0, refreshes = 0, errorMessages = 0, outputLines = 0,
        parserCalls = 0\<rparr>)"

definition isMainEditor :: "TextEditor \<Rightarrow> bool" where
  "isMainEditor ed = (viewColumn ed \<noteq> None)"

definition onActiveEditorChanged :: "TextEditor option \<Rightarrow> TreeDataProvider \<Rightarrow> TreeDataProvider" where
  "onActiveEditorChanged ed p =
     (if (case ed of None \<Rightarrow> False | Some e \<Rightarrow> \<not> isMainEditor e) then p
      else fire (p\<lparr>editor := ed, roots := []\<rparr>))"

definition isDocumentForActiveEditor :: "TextDocument \<Rightarrow> TreeDataProvider \<Rightarrow> bool" where
  "isDocumentForActiveEditor doc p =
     (case editor p of None \<Rightarrow> False | Some e \<Rightarrow> uri (document e) = uri doc)"

text \<open>\<open>onDocumentChanged\<close>, called at time \<open>now\<close>.\<close>

definition onDocumentChanged :: "int \<Rightarrow> TextDocumentChangeEvent \<Rightarrow> TreeDataProvider \<Rightarrow> TreeDataProvider" where
  "onDocumentChanged now evt p =
     (if \<not> isDocumentForActiveEditor (evt_document evt) p then p
      else if length (contentChanges evt) = 0 then p
      else
        let p1 = p\<lparr>roots := []\<rparr>;
            p2 = (case documentChangedTimer p1 of
                    Some handle \<Rightarrow> (clearTimeout handle p1)\<lparr>documentChangedTimer := None\<rparr>
                  | None \<Rightarrow> p1)
        in case setTimeout now (updateOnTypeDelay p2) p2 of
             (handle, p3) \<Rightarrow> p3\<lparr>documentChangedTimer := Some handle\<rparr>)"

definition onDocumentSaved :: "TextDocument \<Rightarrow> TreeDataProvider \<Rightarrow> TreeDataProvider" where
  "onDocumentSaved doc p =
     (if \<not> isDocumentForActiveEditor doc p then p
      else fire (p\<lparr>roots := []\<rparr>))"

text \<open>
  \<open>getChildren\<close>, with the injected \<open>outlineFromDoc\<close> as a function that returns an outline
  or throws. The call is awaited; the model takes the request as one step, with no other
  event handled before the parser answers. The result \<open>None\<close> is \<open>undefined\<close>.
\<close>

definition getChildren ::
  "(TextDocument \<Rightarrow> Error + Outline) \<Rightarrow> GinkgoNode option \<Rightarrow> TreeDataProvider
     \<Rightarrow> GinkgoNode list option \<times> TreeDataProvider" where
  "getChildren outlineFromDoc element p =
     (case editor p of
        None \<Rightarrow> (None, p)
      | Some ed \<Rightarrow>
          if languageId (document ed) \<noteq> ''go''
          then (None, p\<lparr>outputLines := outputLines p + 1\<rparr>)
          else
            (case (if length (roots p) = 0
                   then (case outlineFromDoc (document ed) of
                           Inr outline \<Rightarrow>
                             Inr (p\<lparr>parserCalls := parserCalls p + 1, roots := nested outline\<rparr>)
                         | Inl err \<Rightarrow>
                             Inl (p\<lparr>parserCalls := parserCalls p + 1,
                                    outputLines := outputLines p + 1,
                                    errorMessages := errorMessages p + 1\<rparr>))
                   else Inr p) of
               Inl p' \<Rightarrow> (None, p')
             | Inr p' \<Rightarrow>
                 (case element of
                    None \<Rightarrow> (Some (roots p'), p')
                  | Some el \<Rightarrow> (nodes el, p'))))"

text \<open>
  \<open>wasRecentlyClicked\<close> and \<open>clickTreeItem\<close>; \<open>now\<close> is the value of \<open>Date.now()\<close>. The stored
  time is tested for truthiness, and the number 0 is falsy. The result says which of the
  two editor actions was taken: highlighting the node, or moving the selection to its
  start; \<open>None\<close> when the method returns at once for want of an editor.
\<close>

datatype Click = Highlight | Navigate

definition wasRecentlyClicked :: "int \<Rightarrow> GinkgoNode \<Rightarrow> int \<Rightarrow> GinkgoNode \<Rightarrow> int \<Rightarrow> bool" where
  "wasRecentlyClicked threshold lastNode lastTime currentNode currentTime =
     (let isSameNode = (start lastNode = start currentNode \<and> end' lastNode = end' currentNode);
          recently = (currentTime - lastTime < threshold)
      in isSameNode \<and> recently)"

definition clickTreeItem :: "int \<Rightarrow> GinkgoNode \<Rightarrow> TreeDataProvider \<Rightarrow> Click option \<times> TreeDataProvider" where
  "clickTreeItem now element p =
     (case editor p of
        None \<Rightarrow> (None, p)
      | Some ed \<Rightarrow>
          let recentlyClicked =
                (case (lastClickedTime p, lastClickedNode p) of
                   (Some t, Some n) \<Rightarrow>
                     if t \<noteq> 0 then wasRecentlyClicked (doubleClickThreshold p) n t element now
                     else False
                 | _ \<Rightarrow> False);
              p' = p\<lparr>lastClickedTime := Some now, lastClickedNode := Some element\<rparr>
          in if \<not> recentlyClicked then (Some Highlight, p') else (Some Navigate, p'))"

text \<open>
  The events of the editor, delivered at a time \<open>now\<close>: a document event reaches the
  provider only through the listener that is subscribed. \<open>run_timers\<close> lets the clock
  reach \<open>now\<close>: every pending timer that is due is removed and its callback fires.
  \<open>run\<close> handles a list of timed events in order.
\<close>

datatype Event =
    DidChangeActiveTextEditor "TextEditor option"
  | DidChangeTextDocument TextDocumentChangeEvent
  | DidSaveTextDocument TextDocument

definition deliver :: "int \<Rightarrow> Event \<Rightarrow> TreeDataProvider \<Rightarrow> TreeDataProvider" where
  "deliver now ev p =
     (case ev of
        DidChangeActiveTextEditor ed \<Rightarrow> onActiveEditorChanged ed p
      | DidChangeTextDocument evt \<Rightarrow>
          if updateListener p = Some onType then onDocumentChanged now evt p else p
      | DidSaveTextDocument doc \<Rightarrow>
          if updateListener p = Some onSave then onDocumentSaved doc p else p)"

definition run_timers :: "int \<Rightarrow> TreeDataProvider \<Rightarrow> TreeDataProvider" where
  "run_timers now p =
     fold (\<lambda>t q. fire q) (filter (\<lambda>t. snd t \<le> now) (timers p))
       (p\<lparr>timers := filter (\<lambda>t. now < snd t) (timers p)\<rparr>)"

fun run :: "(int \<times> Event) list \<Rightarrow> TreeDataProvider \<Rightarrow> TreeDataProvider" where
  "run [] p = p"
| "run ((now, ev) # evs) p = run evs (deliver now ev (run_timers now p))"

section \<open>The symbol picker\<close>

text \<open>
  \<open>fromTextEditor\<close>, as far as the outline reaches the picker: the nodes its items are made
  of. A document that is not Go gets an empty pick list; an exception of \<open>outlineFromDoc\<close>
  is not caught.
\<close>

definition fromTextEditor :: "TextEditor \<Rightarrow> (TextDocument \<Rightarrow> Error + Outline) \<Rightarrow> Error + GinkgoNode list" where
  "fromTextEditor ed outlineFromDoc =
     (if languageId (document ed) \<noteq> ''go'' then Inr []
      else case outlineFromDoc (document ed) of
             Inl err \<Rightarrow> Inl err
           | Inr out \<Rightarrow> Inr (flat out))"

section \<open>Reference notions for the outline\<close>

text \<open>
  The children of a node, an absent \<open>nodes\<close> read as no children; the pre-order
  traversal of a tree and of a forest; the number of nodes; the (child, parent) address
  pairs of a forest; the record a node was parsed from, that is the node without its
  address; the index of the node with a given address in a list; and forests in which
  every record has its \<open>nodes\<close> field.
\<close>

definition children :: "GinkgoNode \<Rightarrow> GinkgoNode list" where
  "children n = (case nodes n of None \<Rightarrow> [] | Some cs \<Rightarrow> cs)"

fun pre_order :: "GinkgoNode \<Rightarrow> GinkgoNode list"
and pre_order_forest :: "GinkgoNode list \<Rightarrow> GinkgoNode list" where
  "pre_order (GinkgoNode r n t s e sp fo pe ns) =
     GinkgoNode r n t s e sp fo pe ns # (case ns of None \<Rightarrow> [] | Some cs \<Rightarrow> pre_order_forest cs)"
| "pre_order_forest [] = []"
| "pre_order_forest (c # cs) = pre_order c @ pre_order_forest cs"

fun count_nodes :: "GinkgoNode \<Rightarrow> nat"
and count_forest :: "GinkgoNode list \<Rightarrow> nat" where
  "count_nodes (GinkgoNode r n t s e sp fo pe ns) =
     Suc (case ns of None \<Rightarrow> 0 | Some cs \<Rightarrow> count_forest cs)"
| "count_forest [] = 0"
| "count_forest (c # cs) = count_nodes c + count_forest cs"

fun edges :: "GinkgoNode \<Rightarrow> (nat \<times> nat) list"
and edges_forest :: "GinkgoNode list \<Rightarrow> (nat \<times> nat) list" where
  "edges (GinkgoNode r n t s e sp fo pe ns) =
     (case ns of None \<Rightarrow> [] | Some cs \<Rightarrow> map (\<lambda>c. (ref c, r)) cs @ edges_forest cs)"
| "edges_forest [] = []"
| "edges_forest (c # cs) = edges c @ edges_forest cs"

fun json_of :: "GinkgoNode \<Rightarrow> json_node"
and json_of_forest :: "GinkgoNode list \<Rightarrow> json_node list" where
  "json_of (GinkgoNode r n t s e sp fo pe ns) =
     JsonNode n t s e sp fo pe (case ns of None \<Rightarrow> None | Some cs \<Rightarrow> Some (json_of_forest cs))"
| "json_of_forest [] = []"
| "json_of_forest (c # cs) = json_of c # json_of_forest cs"

definition link :: "nat \<times> nat \<Rightarrow> heap \<Rightarrow> heap" where
  "link e h = h(fst e \<mapsto> snd e)"

definition position :: "GinkgoNode list \<Rightarrow> nat \<Rightarrow> nat" where
  "position xs r = length (takeWhile (\<lambda>n. ref n \<noteq> r) xs)"



text \<open>
  Edit events as the editor delivers them, each with its time; times that never decrease
  and are spaced less than \<open>D\<close> apart; and the state of the timer queue in which the only
  pending timer, if there is one, is the one whose handle the provider holds and is not
  yet due at time \<open>now\<close>.
\<close>

fun spaced_less :: "int \<Rightarrow> int list \<Rightarrow> bool" where
  "spaced_less D [] = True"
| "spaced_less D [t] = True"
| "spaced_less D (t1 # t2 # ts) = (t1 \<le> t2 \<and> t2 - t1 < D \<and> spaced_less D (t2 # ts))"

definition edits :: "(int \<times> TextDocumentChangeEvent) list \<Rightarrow> (int \<times> Event) list" where
  "edits es = map (\<lambda>e. (fst e, DidChangeTextDocument (snd e))) es"

definition pending_timer_ok :: "int \<Rightarrow> TreeDataProvider \<Rightarrow> bool" where
  "pending_timer_ok now q \<longleftrightarrow>
     timers q = [] \<or> (\<exists>h d. timers q = [(h, d)] \<and> documentChangedTimer q = Some h \<and> now < d)"

text \<open>
  Whatever the events, the runtime holds at most one pending timer of the provider, and
  it is the one whose handle the provider holds.
\<close>

definition timer_inv :: "TreeDataProvider \<Rightarrow> bool" where
  "timer_inv p \<longleftrightarrow>
     timers p = [] \<or> (\<exists>h d. timers p = [(h, d)] \<and> documentChangedTimer p = Some h)"

section \<open>Sample values\<close>

text \<open>
  Two editors, an error as \<open>callGinkgoOutline\<close> builds it from the parser's diagnostic, two
  outline nodes, an edit of the active document, records taken from the fixture of the
  unit test (its \<open>By\<close> records and its innermost \<open>It\<close> records have no \<open>nodes\<close>), a small
  parser output in which every
  record has \<open>nodes\<close>, a parser that finds no node, and two providers in the mode
  \<open>onType\<close>, with a delay of 100 ms and with one of 2147483648 ms.
\<close>

definition go_editor :: TextEditor where
  "go_editor = \<lparr>document = \<lparr>uri = ''file:///book_test.go'', languageId = ''go''\<rparr>, viewColumn = Some 1\<rparr>"

definition embedded_editor :: TextEditor where
  "embedded_editor = \<lparr>document = \<lparr>uri = ''output:log'', languageId = ''log''\<rparr>, viewColumn = None\<rparr>"

definition notFound :: Error where
  "notFound = \<lparr>message = ''error running \"ginkgo outline --format=json -\" (error code 1): '' @ ginkgoImportsNotFoundError\<rparr>"

definition spec_node :: GinkgoNode where
  "spec_node = GinkgoNode 0 ''Describe'' ''Book'' 116 605 False False False (Some [])"

definition step :: GinkgoNode where
  "step = GinkgoNode 1 ''It'' ''has chapters'' 182 240 True False False (Some [])"

definition edit :: TextDocumentChangeEvent where
  "edit = \<lparr>evt_document = document go_editor, contentChanges = [''x'']\<rparr>"

definition by_step1 :: json_node where
  "by_step1 = JsonNode ''By'' ''step 1'' 207 219 False False False None"

definition by_step2 :: json_node where
  "by_step2 = JsonNode ''By'' ''step 2'' 223 235 False False False None"

definition it_normal :: json_node where
  "it_normal = JsonNode ''It'' ''normal'' 182 240 True False False (Some [by_step1, by_step2])"

definition context_normal :: json_node where
  "context_normal = JsonNode ''Context'' ''normal'' 247 307 False False False
     (Some [JsonNode ''It'' ''normal'' 276 303 True False False None])"



definition empty_outline :: "TextDocument \<Rightarrow> Error + Outline" where
  "empty_outline doc = Inr \<lparr>nested = [], flat = []\<rparr>"

definition typing :: TreeDataProvider where
  "typing = new_TreeDataProvider (Some go_editor) onType 100 500"

definition long_delay :: TreeDataProvider where
  "long_delay = new_TreeDataProvider (Some go_editor) onType 2147483648 500"

section \<open>Properties of the error classifier\<close>

lemma startsWith_iff: "startsWith s p \<longleftrightarrow> (\<exists>r. s = p @ r)"
  by (induction s p rule: startsWith.induct) auto

lemma indexOf_from_lower: "indexOf_from i s p = - 1 \<or> int i \<le> indexOf_from i s p"
  by (induction i s p rule: indexOf_from.induct) auto

lemma indexOf_from_first:
  "startsWith s p \<Longrightarrow> indexOf_from i s p = int i"
  by (cases s) (auto simp: startsWith_iff)

lemma indexOf_from_here:
  assumes "indexOf_from i s p = int i"
  shows "startsWith s p"
proof (cases s)
  case Nil
  with assms show ?thesis by (simp split: if_splits)
next
  case (Cons c cs)
  with assms indexOf_from_lower [of "Suc i" cs p] show ?thesis
    by (auto split: if_splits)
qed

lemma indexOf_from_occurs:
  "int i < indexOf_from i s p \<Longrightarrow>
     \<not> startsWith s p \<and> (\<exists>pre post. pre \<noteq> [] \<and> s = pre @ p @ post)"
proof (induction i s p rule: indexOf_from.induct)
  case (1 i p)
  then show ?case by (simp split: if_splits)
next
  case (2 i c cs p)
  from "2.prems" have ns: "\<not> startsWith (c # cs) p"
    by (auto split: if_splits)
  with "2.prems" have step: "int i < indexOf_from (Suc i) cs p"
    by simp
  show ?case
  proof (cases "startsWith cs p")
    case True
    then obtain r where "cs = p @ r"
      by (auto simp: startsWith_iff)
    then have "c # cs = [c] @ p @ r" by simp
    with ns show ?thesis by blast
  next
    case False
    with step indexOf_from_here [of "Suc i" cs p]
    have "int (Suc i) < indexOf_from (Suc i) cs p"
      by (cases "indexOf_from (Suc i) cs p = int (Suc i)") auto
    from "2.IH" [OF ns this] obtain pre post where "pre \<noteq> []" "cs = pre @ p @ post"
      by blast
    then have "c # cs = (c # pre) @ p @ post" by simp
    with ns show ?thesis by blast
  qed
qed

text \<open>
  Claim C9. A message that begins (at index 0) with the framework-not-found diagnostic, in
  particular a message equal to it, is classified \<open>false\<close>; the classifier answers \<open>true\<close>
  only when the diagnostic occurs at a strictly positive index, that is after a non-empty
  prefix, and not at index 0.
\<close>

theorem isGinkgoImportsNotFoundError_positive_index:
  "isGinkgoImportsNotFoundError \<lparr>message = ginkgoImportsNotFoundError @ rest\<rparr> = False
   \<and> (isGinkgoImportsNotFoundError err \<longrightarrow>
        \<not> startsWith (message err) ginkgoImportsNotFoundError
        \<and> (\<exists>pre post. pre \<noteq> [] \<and> message err = pre @ ginkgoImportsNotFoundError @ post))"
proof -
  have "startsWith (ginkgoImportsNotFoundError @ rest) ginkgoImportsNotFoundError"
    by (simp add: startsWith_iff)
  then have "indexOf (ginkgoImportsNotFoundError @ rest) ginkgoImportsNotFoundError = 0"
    using indexOf_from_first [of _ _ 0] by (simp add: indexOf_def)
  then have a: "isGinkgoImportsNotFoundError \<lparr>message = ginkgoImportsNotFoundError @ rest\<rparr> = False"
    by (simp add: isGinkgoImportsNotFoundError_def)
  have b: "\<not> startsWith (message err) ginkgoImportsNotFoundError
        \<and> (\<exists>pre post. pre \<noteq> [] \<and> message err = pre @ ginkgoImportsNotFoundError @ post)"
    if "isGinkgoImportsNotFoundError err"
  proof -
    from that have "int 0 < indexOf_from 0 (message err) ginkgoImportsNotFoundError"
      by (simp add: isGinkgoImportsNotFoundError_def indexOf_def split: if_splits)
    then show ?thesis by (rule indexOf_from_occurs)
  qed
  from a b show ?thesis by blast
qed

theorem isGinkgoImportsNotFoundError_positive_index_witness:
  "isGinkgoImportsNotFoundError \<lparr>message = ''x: '' @ ginkgoImportsNotFoundError\<rparr>
   \<and> \<not> startsWith (''x: '' @ ginkgoImportsNotFoundError) ginkgoImportsNotFoundError
   \<and> (\<exists>pre post. pre \<noteq> [] \<and> ''x: '' @ ginkgoImportsNotFoundError = pre @ ginkgoImportsNotFoundError @ post)"
proof -
  have h: "isGinkgoImportsNotFoundError \<lparr>message = ''x: '' @ ginkgoImportsNotFoundError\<rparr>"
    by (simp add: isGinkgoImportsNotFoundError_def indexOf_def ginkgoImportsNotFoundError_def)
  with isGinkgoImportsNotFoundError_positive_index
         [of "[]" "\<lparr>message = ''x: '' @ ginkgoImportsNotFoundError\<rparr>"]
  show ?thesis by simp
qed

section \<open>Properties of the builder\<close>

lemma pre_order_eq: "pre_order n = n # pre_order_forest (children n)"
  by (cases n) (simp add: children_def split: option.splits)

lemma length_pre_order:
  "length (pre_order n) = count_nodes n"
  "length (pre_order_forest ns) = count_forest ns"
  by (induction n and ns rule: pre_order_pre_order_forest.induct) (auto split: option.splits)

lemma fold_set_parent: "fold (set_parent n) cs h = fold link (map (\<lambda>c. (ref c, ref n)) cs) h"
  by (induction cs arbitrary: h) (auto simp: set_parent_def link_def)

lemma preOrder_annotate:
  "preOrder n annotate st = Inr st' \<Longrightarrow>
     fst st' = fst st @ pre_order n \<and> snd st' = fold link (edges n) (snd st)"
  "preOrder_each ns annotate st = Inr st' \<Longrightarrow>
     fst st' = fst st @ pre_order_forest ns \<and> snd st' = fold link (edges_forest ns) (snd st)"
proof (induction n "annotate" st and ns "annotate" st
       arbitrary: st' and st' rule: preOrder_preOrder_each.induct)
  case (1 r n t s e sp fo pe ns st)
  then show ?case
    by (auto simp: annotate_def fold_set_parent split: option.splits sum.splits prod.splits)
next
  case 2
  then show ?case by simp
next
  case (3 c cs st)
  then show ?case
    by (auto split: sum.splits)
qed





lemma JSON_parse_refs:
  "JSON_parse_node k j = (n, k') \<Longrightarrow> map ref (pre_order n) = [k..<k'] \<and> k < k'"
  "JSON_parse_nodes k js = (ns, k') \<Longrightarrow> map ref (pre_order_forest ns) = [k..<k'] \<and> k \<le> k'"
proof (induction k j and k js arbitrary: n k' and ns k' rule: JSON_parse_node_JSON_parse_nodes.induct)
  case (1 k nm t s e sp fo pe js)
  show ?case
  proof (cases js)
    case None
    with "1.prems" show ?thesis by (auto simp: upt_conv_Cons)
  next
    case (Some cs)
    with "1.prems" obtain ns where
      a: "JSON_parse_nodes (Suc k) cs = (ns, k')" and b: "n = GinkgoNode k nm t s e sp fo pe (Some ns)"
      by (auto split: prod.splits)
    from "1.IH" [OF Some a] have "map ref (pre_order_forest ns) = [Suc k..<k']" "Suc k \<le> k'"
      by simp_all
    with b show ?thesis by (simp add: upt_conv_Cons)
  qed
next
  case (2 k)
  then show ?case by simp
next
  case (3 k j js)
  from "3.prems" obtain n k1 ns' where
    a: "JSON_parse_node k j = (n, k1)" and b: "JSON_parse_nodes k1 js = (ns', k')" and c: "ns = n # ns'"
    by (auto split: prod.splits)
  from "3.IH"(1) [OF a] have d: "map ref (pre_order n) = [k..<k1]" "k < k1" by simp_all
  from "3.IH"(2) [OF a [symmetric] b] have e: "map ref (pre_order_forest ns') = [k1..<k']" "k1 \<le> k'"
    by simp_all
  from d(2) e(2) have "[k..<k'] = [k..<k1] @ [k1..<k']"
    by (metis less_imp_le_nat upt_add_eq_append le_Suc_ex)
  with c d e show ?case by simp
qed

lemma pre_order_forest_append:
  "pre_order_forest (xs @ ys) = pre_order_forest xs @ pre_order_forest ys"
  by (induction xs) auto

lemma roots_in_pre_order_forest: "set ns \<subseteq> set (pre_order_forest ns)"
  by (induction ns) (auto simp: pre_order_eq)

lemma pre_order_segment:
  "m \<in> set (pre_order n) \<Longrightarrow> \<exists>pre post. pre_order n = pre @ pre_order m @ post"
  "m \<in> set (pre_order_forest ns) \<Longrightarrow> \<exists>pre post. pre_order_forest ns = pre @ pre_order m @ post"
proof (induction n and ns rule: pre_order_pre_order_forest.induct)
  case (1 r nm t s e sp fo pe ns)
  let ?n = "GinkgoNode r nm t s e sp fo pe ns"
  show ?case
  proof (cases "m = ?n")
    case True
    then have "pre_order ?n = [] @ pre_order m @ []" by simp
    then show ?thesis by blast
  next
    case False
    with "1.prems" obtain cs where cs: "ns = Some cs" and m: "m \<in> set (pre_order_forest cs)"
      by (cases ns) auto
    from "1.IH" [OF cs m] obtain pre post where "pre_order_forest cs = pre @ pre_order m @ post"
      by blast
    with cs have "pre_order ?n = (?n # pre) @ pre_order m @ post" by simp
    then show ?thesis by blast
  qed
next
  case 2
  then show ?case by simp
next
  case (3 c cs)
  from "3.prems" consider "m \<in> set (pre_order c)" | "m \<in> set (pre_order_forest cs)"
    by auto
  then show ?case
  proof cases
    case 1
    from "3.IH"(1) [OF 1] obtain pre post where "pre_order c = pre @ pre_order m @ post"
      by blast
    then have "pre_order_forest (c # cs) = pre @ pre_order m @ (post @ pre_order_forest cs)"
      by simp
    then show ?thesis by blast
  next
    case 2
    from "3.IH"(2) [OF 2] obtain pre post where "pre_order_forest cs = pre @ pre_order m @ post"
      by blast
    then have "pre_order_forest (c # cs) = (pre_order c @ pre) @ pre_order m @ post"
      by simp
    then show ?thesis by blast
  qed
qed

lemma children_in_pre_order_forest:
  assumes "n \<in> set (pre_order_forest ns)"
  shows "set (children n) \<subseteq> set (pre_order_forest ns)"
proof -
  from pre_order_segment(2) [OF assms] obtain pre post where
    "pre_order_forest ns = pre @ pre_order n @ post" by blast
  then have "set (pre_order_forest (children n)) \<subseteq> set (pre_order_forest ns)"
    by (auto simp: pre_order_eq [of n])
  with roots_in_pre_order_forest [of "children n"] show ?thesis by blast
qed

lemma position_before:
  assumes "distinct (map ref xs)" and "xs = as @ x # bs" and "y \<in> set bs"
  shows "position xs (ref x) < position xs (ref y)"
proof -
  from assms(1,2) have a: "\<forall>n \<in> set as. ref n \<noteq> ref x"
    by (auto simp: image_iff)
  from assms have b: "\<forall>n \<in> set (as @ [x]). ref n \<noteq> ref y"
    by (auto simp: image_iff)
  from a assms(2) have "position xs (ref x) = length as"
    by (simp add: position_def takeWhile_append)
  moreover from b assms(2) have "position xs (ref y) \<ge> length (as @ [x])"
    by (simp add: position_def takeWhile_append)
  ultimately show ?thesis by simp
qed



lemma JSON_parse_distinct: "distinct (map ref (pre_order_forest (JSON_parse input)))"
proof -
  obtain ns k' where "JSON_parse_nodes 0 input = (ns, k')"
    by (cases "JSON_parse_nodes 0 input")
  with JSON_parse_refs(2) [of 0 input ns k'] show ?thesis
    by (simp add: JSON_parse_def)
qed

lemma fromJSON_result:
  assumes "fromJSON input = Inr (out, h)"
  shows "nested out = JSON_parse input"
    and "flat out = pre_order_forest (nested out)"
    and "h = fold link (edges_forest (nested out)) Map.empty"
    and "distinct (map ref (flat out))"
proof -
  from assms obtain st where
    st: "preOrder_each (JSON_parse input) annotate ([], Map.empty) = Inr st"
    and out: "out = \<lparr>nested = JSON_parse input, flat = fst st\<rparr>" and h: "h = snd st"
    by (auto simp: fromJSON_def Let_def split: sum.splits prod.splits)
  from out show n: "nested out = JSON_parse input" by simp
  from preOrder_annotate(2) [OF st] out h n
  show f: "flat out = pre_order_forest (nested out)"
    and "h = fold link (edges_forest (nested out)) Map.empty"
    by simp_all
  from f n JSON_parse_distinct [of input] show "distinct (map ref (flat out))"
    by simp
qed


lemma sibling_split:
  assumes "a < b" and "b < length cs"
  shows "\<exists>X Y. pre_order_forest cs = X @ cs ! a # Y \<and> cs ! b \<in> set Y"
proof -
  from assms have "cs = take a cs @ cs ! a # drop (Suc a) cs"
    by (simp add: id_take_nth_drop)
  then have "pre_order_forest cs =
      pre_order_forest (take a cs) @ pre_order (cs ! a) @ pre_order_forest (drop (Suc a) cs)"
    by (metis pre_order_forest_append pre_order_forest.simps(2))
  then have split: "pre_order_forest cs = pre_order_forest (take a cs) @ cs ! a #
      (pre_order_forest (children (cs ! a)) @ pre_order_forest (drop (Suc a) cs))"
    by (simp add: pre_order_eq [of "cs ! a"])
  from assms have "cs ! b \<in> set (drop (Suc a) cs)"
    by (auto simp: in_set_conv_nth intro!: exI [of _ "b - Suc a"])
  with roots_in_pre_order_forest [of "drop (Suc a) cs"]
  have "cs ! b \<in> set (pre_order_forest (children (cs ! a)) @ pre_order_forest (drop (Suc a) cs))"
    by auto
  with split show ?thesis by blast
qed

lemma descendants_later:
  assumes "distinct (map ref (pre_order_forest ns))"
    and "n \<in> set (pre_order_forest ns)" and "d \<in> set (pre_order_forest (children n))"
  shows "position (pre_order_forest ns) (ref n) < position (pre_order_forest ns) (ref d)"
proof -
  from pre_order_segment(2) [OF assms(2)] obtain pre post where
    "pre_order_forest ns = pre @ pre_order n @ post" by blast
  then have "pre_order_forest ns = pre @ n # (pre_order_forest (children n) @ post)"
    by (simp add: pre_order_eq [of n])
  moreover from assms(3) have "d \<in> set (pre_order_forest (children n) @ post)" by simp
  ultimately show ?thesis using assms(1) by (rule position_before [rotated])
qed

lemma siblings_later:
  assumes "distinct (map ref (pre_order_forest ns))"
    and "cs \<in> set (ns # map children (pre_order_forest ns))" and "a < b" and "b < length cs"
  shows "position (pre_order_forest ns) (ref (cs ! a)) < position (pre_order_forest ns) (ref (cs ! b))"
proof -
  from sibling_split [OF assms(3,4)] obtain X Y where
    xy: "pre_order_forest cs = X @ cs ! a # Y" "cs ! b \<in> set Y" by blast
  from assms(2) consider "cs = ns" | n where "n \<in> set (pre_order_forest ns)" "cs = children n"
    by auto
  then obtain P Q where "pre_order_forest ns = P @ cs ! a # Q" "cs ! b \<in> set Q"
  proof cases
    case 1
    with xy that show ?thesis by blast
  next
    case 2
    from pre_order_segment(2) [OF 2(1)] obtain pre post where
      "pre_order_forest ns = pre @ pre_order n @ post" by blast
    with 2(2) xy have "pre_order_forest ns = (pre @ n # X) @ cs ! a # (Y @ post)"
      by (simp add: pre_order_eq [of n])
    moreover from xy(2) have "cs ! b \<in> set (Y @ post)" by simp
    ultimately show ?thesis using that by blast
  qed
  with assms(1) show ?thesis by (rule position_before)
qed


lemma json_of_JSON_parse_nodes:
  "json_of (fst (JSON_parse_node k j)) = j"
  "json_of_forest (fst (JSON_parse_nodes k js)) = js"
  by (induction k j and k js rule: JSON_parse_node_JSON_parse_nodes.induct)
     (auto split: option.splits prod.splits)

lemma json_of_JSON_parse: "json_of_forest (JSON_parse input) = input"
  by (simp add: JSON_parse_def json_of_JSON_parse_nodes)



text \<open>
  C2. A record without the field \<open>nodes\<close> makes the builder raise: \<open>preOrder\<close> guards its
  own loop with \<open>if (node.nodes)\<close>, but the callback of \<open>fromJSON\<close> iterates \<open>n.nodes\<close>
  unguarded. Both a single \<open>By\<close> record of the unit test's fixture and its \<open>It\<close> record
  with two such children end in a \<open>TypeError\<close>.
\<close>

theorem fromJSON_missing_nodes_raises:
  "fromJSON [by_step1] = Inl TypeError \<and> fromJSON [it_normal] = Inl TypeError"
  by (simp add: fromJSON_def JSON_parse_def by_step1_def by_step2_def it_normal_def annotate_def)


text \<open>
  When the builder returns, \<open>nested\<close> is the parsed input, the length of \<open>flat\<close> is the
  number of nodes of the forest, \<open>flat\<close> starts with the first root (and is empty when there
  is no root), and \<open>flat\<close> is the pre-order traversal of the forest: no object occurs
  twice, every node comes before each of its descendants (so after each of its
  ancestors), and in every sibling sequence (the roots, or the children of a node) an
  earlier sibling comes before a later one.
\<close>

lemma fromJSON_flat_is_pre_order:
  assumes "fromJSON input = Inr (out, h)"
  shows "nested out = JSON_parse input \<and> json_of_forest (nested out) = input
    \<and> length (flat out) = count_forest (nested out)
    \<and> take 1 (flat out) = take 1 (nested out)
    \<and> flat out = pre_order_forest (nested out)
    \<and> distinct (map ref (flat out))
    \<and> (\<forall>n \<in> set (flat out). \<forall>d \<in> set (pre_order_forest (children n)).
          position (flat out) (ref n) < position (flat out) (ref d))
    \<and> (\<forall>cs \<in> set (nested out # map children (flat out)). \<forall>b < length cs. \<forall>a < b.
          position (flat out) (ref (cs ! a)) < position (flat out) (ref (cs ! b)))"
proof -
  note r = fromJSON_result [OF assms]
  from r(1) have tie: "json_of_forest (nested out) = input"
    by (simp add: json_of_JSON_parse)
  from r(2) have len: "length (flat out) = count_forest (nested out)"
    by (simp add: length_pre_order)
  from r(2) have first: "take 1 (flat out) = take 1 (nested out)"
    by (cases "nested out") (simp_all add: pre_order_eq)
  from r(2,4) have d: "distinct (map ref (pre_order_forest (nested out)))" by simp
  from descendants_later [OF d] r(2)
  have desc: "\<forall>n \<in> set (flat out). \<forall>d \<in> set (pre_order_forest (children n)).
          position (flat out) (ref n) < position (flat out) (ref d)"
    by simp
  from siblings_later [OF d] r(2)
  have sib: "\<forall>cs \<in> set (nested out # map children (flat out)). \<forall>b < length cs. \<forall>a < b.
          position (flat out) (ref (cs ! a)) < position (flat out) (ref (cs ! b))"
    by simp
  from r(1) tie len first r(2) r(4) desc sib show ?thesis by blast
qed

text \<open>
  C6. The forest made of the \<open>Context\<close> record of the unit test's fixture has two nodes, the
  root and its \<open>It\<close> child, so that its flat list has length 2 and starts with the root.
  The \<open>It\<close> record has no \<open>nodes\<close>, and the builder ends in a \<open>TypeError\<close>: there is no flat
  list.
\<close>

theorem fromJSON_no_flat_list_for_fixture:
  "count_forest (JSON_parse [context_normal]) = 2
   \<and> json_of_forest (JSON_parse [context_normal]) = [context_normal]
   \<and> fromJSON [context_normal] = Inl TypeError"
  by (simp add: fromJSON_def JSON_parse_def context_normal_def annotate_def)





section \<open>Properties of the tree data provider\<close>

text \<open>
  C8. A change of the active editor to an editor without a view column leaves the provider
  as it is: same editor, same cached roots, no refresh event. Every other change, also the
  one to no editor, binds the new editor, empties the cached roots and fires one refresh
  event, and changes nothing else.
\<close>

theorem onActiveEditorChanged_main_editors_only:
  "(viewColumn e = None \<longrightarrow> onActiveEditorChanged (Some e) p = p)
   \<and> (ed = None \<or> (\<exists>e'. ed = Some e' \<and> viewColumn e' \<noteq> None) \<longrightarrow>
        onActiveEditorChanged ed p = p\<lparr>editor := ed, roots := [], refreshes := refreshes p + 1\<rparr>)"
  by (auto simp: onActiveEditorChanged_def isMainEditor_def fire_def)

theorem onActiveEditorChanged_main_editors_only_witness:
  "onActiveEditorChanged (Some embedded_editor) (new_TreeDataProvider (Some go_editor) onSave 0 500)
     = new_TreeDataProvider (Some go_editor) onSave 0 500
   \<and> onActiveEditorChanged None (new_TreeDataProvider (Some go_editor) onSave 0 500)
     = (new_TreeDataProvider (Some go_editor) onSave 0 500)\<lparr>editor := None, roots := [], refreshes := 1\<rparr>"
  using onActiveEditorChanged_main_editors_only
          [of embedded_editor "new_TreeDataProvider (Some go_editor) onSave 0 500" None]
  by (simp add: embedded_editor_def new_TreeDataProvider_def setUpdateOn_def setUpdateOnTypeDelay_def)

lemma getChildren_fetch:
  assumes "editor p = Some ed" and "languageId (document ed) = ''go''" and "roots p = []"
  shows "getChildren outlineFromDoc element p =
     (case outlineFromDoc (document ed) of
        Inl err \<Rightarrow> (None, p\<lparr>parserCalls := parserCalls p + 1, outputLines := outputLines p + 1,
                             errorMessages := errorMessages p + 1\<rparr>)
      | Inr outline \<Rightarrow>
          (case element of None \<Rightarrow> Some (nested outline) | Some el \<Rightarrow> nodes el,
           p\<lparr>parserCalls := parserCalls p + 1, roots := nested outline\<rparr>))"
  using assms by (simp add: getChildren_def split: sum.splits option.splits)

text \<open>
  C10. With an editor on a Go document and no cached roots, a parser that answers with an
  empty list of roots is called and leaves the provider as it was, but for the count of
  parser calls: the roots are still empty, so each of any number of further requests
  calls the parser again.
\<close>

theorem getChildren_empty_outline_not_cached:
  assumes "editor p = Some ed" and "languageId (document ed) = ''go''" and "roots p = []"
    and "outlineFromDoc (document ed) = Inr outline" and "nested outline = []"
  shows "getChildren outlineFromDoc element p =
           (case element of None \<Rightarrow> Some [] | Some el \<Rightarrow> nodes el,
            p\<lparr>parserCalls := parserCalls p + 1\<rparr>)
     \<and> fold (\<lambda>el q. snd (getChildren outlineFromDoc el q)) elements p =
           p\<lparr>parserCalls := parserCalls p + length elements\<rparr>"
proof -
  have one: "getChildren outlineFromDoc el q =
      (case el of None \<Rightarrow> Some [] | Some el \<Rightarrow> nodes el, q\<lparr>parserCalls := parserCalls q + 1\<rparr>)"
    if "editor q = Some ed" "roots q = []" for q el
  proof -
    from that(2) have "q\<lparr>parserCalls := parserCalls q + 1, roots := []\<rparr> = q\<lparr>parserCalls := parserCalls q + 1\<rparr>"
      by (cases q) simp
    with that assms(2,4,5) show ?thesis
      by (simp add: getChildren_fetch split: option.splits)
  qed
  have many: "fold (\<lambda>el q. snd (getChildren outlineFromDoc el q)) els q =
           q\<lparr>parserCalls := parserCalls q + length els\<rparr>"
    if "editor q = Some ed" "roots q = []" for q els
    using that
  proof (induction els arbitrary: q)
    case Nil
    then show ?case by simp
  next
    case (Cons el els)
    from Cons.prems have "editor (q\<lparr>parserCalls := parserCalls q + 1\<rparr>) = Some ed"
      "roots (q\<lparr>parserCalls := parserCalls q + 1\<rparr>) = []" by simp_all
    from Cons.IH [OF this] one [OF Cons.prems] show ?case by simp
  qed
  from one [OF assms(1,3)] many [OF assms(1,3)] show ?thesis by simp
qed

theorem getChildren_empty_outline_not_cached_witness:
  "getChildren empty_outline None (new_TreeDataProvider (Some go_editor) onSave 0 500) =
     (Some [], (new_TreeDataProvider (Some go_editor) onSave 0 500)\<lparr>parserCalls := 1\<rparr>)
   \<and> fold (\<lambda>el q. snd (getChildren empty_outline el q)) [None, None, None]
         (new_TreeDataProvider (Some go_editor) onSave 0 500) =
       (new_TreeDataProvider (Some go_editor) onSave 0 500)\<lparr>parserCalls := 3\<rparr>"
proof -
  let ?p = "new_TreeDataProvider (Some go_editor) onSave 0 500"
  have a: "editor ?p = Some go_editor" "languageId (document go_editor) = ''go''" "roots ?p = []"
    "empty_outline (document go_editor) = Inr \<lparr>nested = [], flat = []\<rparr>"
    "nested \<lparr>nested = [], flat = []\<rparr> = []" "parserCalls ?p = 0"
    by (simp_all add: new_TreeDataProvider_def go_editor_def setUpdateOn_def
        setUpdateOnTypeDelay_def empty_outline_def)
  note t = getChildren_empty_outline_not_cached
         [where p = "?p" and ed = go_editor and outlineFromDoc = empty_outline
            and outline = "\<lparr>nested = [], flat = []\<rparr>" and element = None
            and elements = "[None, None, None]", OF a(1,2,3,4,5)]
  from t [THEN conjunct1] a(6)
  have "getChildren empty_outline None ?p = (Some [], ?p\<lparr>parserCalls := 1\<rparr>)"
    by simp
  moreover from t [THEN conjunct2] a(6)
  have "fold (\<lambda>el q. snd (getChildren empty_outline el q)) [None, None, None] ?p =
      ?p\<lparr>parserCalls := 3\<rparr>"
    by (simp add: numeral_3_eq_3)
  ultimately show ?thesis by (intro conjI)
qed

text \<open>
  C1, as the code has it. With an editor on a Go document and no cached roots, a parser
  failure of any kind, the framework-not-found diagnostic included, is handled in one way:
  the cache stays empty, one line is logged, the error notification is shown, and the
  tree gets \<open>undefined\<close>. The symbol picker does not catch the failure: it reaches the
  caller of \<open>fromTextEditor\<close>.
\<close>

theorem getChildren_fetch_failure:
  assumes "editor p = Some ed" and "languageId (document ed) = ''go''" and "roots p = []"
    and "outlineFromDoc (document ed) = Inl err"
  shows "getChildren outlineFromDoc element p =
           (None, p\<lparr>parserCalls := parserCalls p + 1, outputLines := outputLines p + 1,
                     errorMessages := errorMessages p + 1\<rparr>)
     \<and> roots (snd (getChildren outlineFromDoc element p)) = []
     \<and> fromTextEditor ed outlineFromDoc = Inl err"
  using assms by (simp add: getChildren_fetch fromTextEditor_def)

theorem getChildren_fetch_failure_witness:
  "getChildren (\<lambda>doc. Inl notFound) None (new_TreeDataProvider (Some go_editor) onSave 0 500) =
     (None, (new_TreeDataProvider (Some go_editor) onSave 0 500)
              \<lparr>parserCalls := 1, outputLines := 1, errorMessages := 1\<rparr>)
   \<and> fromTextEditor go_editor (\<lambda>doc. Inl notFound) = Inl notFound"
proof -
  let ?p = "new_TreeDataProvider (Some go_editor) onSave 0 500"
  have a: "editor ?p = Some go_editor" "languageId (document go_editor) = ''go''" "roots ?p = []"
    "parserCalls ?p = 0" "outputLines ?p = 0" "errorMessages ?p = 0"
    by (simp_all add: new_TreeDataProvider_def go_editor_def setUpdateOn_def setUpdateOnTypeDelay_def)
  from getChildren_fetch_failure [OF a(1,2,3), of "\<lambda>doc. Inl notFound" notFound None] a(4,5,6)
  show ?thesis by simp
qed

text \<open>
  The parser reports the framework-not-found diagnostic, recognised as such by
  \<open>isGinkgoImportsNotFoundError\<close>: the error notification is shown all the same, and the
  symbol picker ends with the error.
\<close>

theorem getChildren_notFound_counterexample:
  "isGinkgoImportsNotFoundError notFound
   \<and> errorMessages (new_TreeDataProvider (Some go_editor) onSave 0 500) = 0
   \<and> errorMessages (snd (getChildren (\<lambda>doc. Inl notFound) None
        (new_TreeDataProvider (Some go_editor) onSave 0 500))) = 1
   \<and> fromTextEditor go_editor (\<lambda>doc. Inl notFound) = Inl notFound"
proof -
  have "isGinkgoImportsNotFoundError notFound"
    by (simp add: notFound_def isGinkgoImportsNotFoundError_def indexOf_def ginkgoImportsNotFoundError_def)
  then show ?thesis
    by (simp add: getChildren_def fromTextEditor_def new_TreeDataProvider_def go_editor_def
        setUpdateOn_def setUpdateOnTypeDelay_def)
qed

lemma clickTreeItem_no_editor:
  "editor p = None \<Longrightarrow> clickTreeItem now element p = (None, p)"
  by (simp add: clickTreeItem_def)

lemma clickTreeItem_eq:
  assumes "editor p = Some ed"
  shows "clickTreeItem now element p =
     (Some (if (\<exists>t n. lastClickedTime p = Some t \<and> lastClickedNode p = Some n \<and> t \<noteq> 0
                 \<and> start n = start element \<and> end' n = end' element
                 \<and> now - t < doubleClickThreshold p)
            then Navigate else Highlight),
      p\<lparr>lastClickedTime := Some now, lastClickedNode := Some element\<rparr>)"
proof (cases "lastClickedTime p")
  case None
  with assms show ?thesis by (simp add: clickTreeItem_def)
next
  case t: (Some t)
  show ?thesis
  proof (cases "lastClickedNode p")
    case None
    with assms t show ?thesis by (simp add: clickTreeItem_def)
  next
    case (Some n)
    with assms t show ?thesis
      by (simp add: clickTreeItem_def wasRecentlyClicked_def)
  qed
qed

text \<open>
  C4, as the code has it. With an editor bound and a first activation at a time other
  than 0: the second activation is \<open>Navigate\<close> iff its node has the same \<open>start\<close> and \<open>end\<close>
  as the first and less than the threshold has passed, and \<open>Highlight\<close> otherwise, so always
  for a node with another \<open>start\<close> or \<open>end\<close>; after each activation, whatever its class,
  the recorded node and time are those of that activation and nothing else has changed,
  so the statement applies again to the next pair of activations.
\<close>

theorem clickTreeItem_classification:
  assumes "editor p \<noteq> None" and "t0 \<noteq> 0"
  shows "fst (clickTreeItem t1 m (snd (clickTreeItem t0 n p))) =
           Some (if start n = start m \<and> end' n = end' m \<and> t1 - t0 < doubleClickThreshold p
                 then Navigate else Highlight)
     \<and> snd (clickTreeItem t0 n p) = p\<lparr>lastClickedTime := Some t0, lastClickedNode := Some n\<rparr>
     \<and> snd (clickTreeItem t1 m (snd (clickTreeItem t0 n p))) =
           p\<lparr>lastClickedTime := Some t1, lastClickedNode := Some m\<rparr>"
proof -
  from assms(1) obtain ed where ed: "editor p = Some ed" by auto
  let ?p = "p\<lparr>lastClickedTime := Some t0, lastClickedNode := Some n\<rparr>"
  from ed have first: "snd (clickTreeItem t0 n p) = ?p"
    by (simp add: clickTreeItem_eq)
  from ed have "editor ?p = Some ed" by simp
  from clickTreeItem_eq [OF this, of t1 m] assms(2)
  have "clickTreeItem t1 m ?p =
     (Some (if start n = start m \<and> end' n = end' m \<and> t1 - t0 < doubleClickThreshold p
            then Navigate else Highlight),
      p\<lparr>lastClickedTime := Some t1, lastClickedNode := Some m\<rparr>)"
    by simp
  with first show ?thesis by simp
qed

theorem clickTreeItem_classification_witness:
  "fst (clickTreeItem 1499 spec_node (snd (clickTreeItem 1000 spec_node
          (new_TreeDataProvider (Some go_editor) onSave 0 500)))) = Some Navigate
   \<and> fst (clickTreeItem 1500 spec_node (snd (clickTreeItem 1000 spec_node
          (new_TreeDataProvider (Some go_editor) onSave 0 500)))) = Some Highlight
   \<and> fst (clickTreeItem 1000 step (snd (clickTreeItem 1000 spec_node
          (new_TreeDataProvider (Some go_editor) onSave 0 500)))) = Some Highlight
   \<and> fst (clickTreeItem 1000 spec_node (snd (clickTreeItem 1000 spec_node
          (new_TreeDataProvider (Some go_editor) onSave 0 500)))) = Some Navigate"
proof -
  let ?p = "new_TreeDataProvider (Some go_editor) onSave 0 500"
  have a: "editor ?p \<noteq> None" "doubleClickThreshold ?p = 500"
    by (simp_all add: new_TreeDataProvider_def setUpdateOn_def setUpdateOnTypeDelay_def)
  have b: "(1000::int) \<noteq> 0" by simp
  note c = clickTreeItem_classification [OF a(1) b, THEN conjunct1]
  have "fst (clickTreeItem 1499 spec_node (snd (clickTreeItem 1000 spec_node ?p))) = Some Navigate"
    using c [of 1499 spec_node spec_node] a(2) by simp
  moreover
  have "fst (clickTreeItem 1500 spec_node (snd (clickTreeItem 1000 spec_node ?p))) = Some Highlight"
    using c [of 1500 spec_node spec_node] a(2) by simp
  moreover
  have "fst (clickTreeItem 1000 step (snd (clickTreeItem 1000 spec_node ?p))) = Some Highlight"
    using c [of 1000 step spec_node] a(2) by (simp add: spec_node_def step_def)
  moreover
  have "fst (clickTreeItem 1000 spec_node (snd (clickTreeItem 1000 spec_node ?p))) = Some Navigate"
    using c [of 1000 spec_node spec_node] a(2) by simp
  ultimately show ?thesis by simp
qed

text \<open>
  A first activation at time 0 records a time that is falsy: the same node activated
  again at once is \<open>Highlight\<close>. Without an editor an activation is neither classified
  nor recorded.
\<close>

theorem clickTreeItem_counterexample:
  "fst (clickTreeItem 0 spec_node (snd (clickTreeItem 0 spec_node
          (new_TreeDataProvider (Some go_editor) onSave 0 500)))) = Some Highlight
   \<and> fst (clickTreeItem 100 spec_node (snd (clickTreeItem 50 spec_node
          (new_TreeDataProvider None onSave 0 500)))) = None
   \<and> lastClickedNode (snd (clickTreeItem 50 spec_node (new_TreeDataProvider None onSave 0 500))) = None"
  by (simp add: clickTreeItem_def new_TreeDataProvider_def go_editor_def
        setUpdateOn_def setUpdateOnTypeDelay_def)

lemma fold_fire: "fold (\<lambda>t q. fire q) ts p = p\<lparr>refreshes := refreshes p + length ts\<rparr>"
  by (induction ts arbitrary: p) (simp_all add: fire_def)

lemma run_timers_eq:
  "run_timers now p =
     p\<lparr>timers := filter (\<lambda>t. now < snd t) (timers p),
       refreshes := refreshes p + length (filter (\<lambda>t. snd t \<le> now) (timers p))\<rparr>"
  by (simp add: run_timers_def fold_fire)

lemma setUpdateOn_eq: "setUpdateOn mode p = p\<lparr>updateListener := Some mode\<rparr>"
  by (cases mode) (simp_all add: setUpdateOn_def split: option.splits)






lemma timer_inv_new: "timer_inv (new_TreeDataProvider ed mode delay threshold)"
  by (cases mode)
     (simp_all add: timer_inv_def new_TreeDataProvider_def setUpdateOn_def setUpdateOnTypeDelay_def)

lemma timer_inv_run_timers: "timer_inv p \<Longrightarrow> timer_inv (run_timers now p)"
  by (auto simp: timer_inv_def run_timers_eq)

lemma timer_inv_onDocumentChanged: "timer_inv p \<Longrightarrow> timer_inv (onDocumentChanged now evt p)"
  by (auto simp: timer_inv_def onDocumentChanged_def setTimeout_def clearTimeout_def Let_def
      split: option.splits)

lemma timer_inv_deliver: "timer_inv p \<Longrightarrow> timer_inv (deliver now ev p)"
proof (cases ev)
  case (DidChangeActiveTextEditor ed)
  then show "timer_inv p \<Longrightarrow> ?thesis"
    by (simp add: deliver_def onActiveEditorChanged_def fire_def timer_inv_def)
next
  case (DidChangeTextDocument evt)
  then show "timer_inv p \<Longrightarrow> ?thesis"
    by (simp add: deliver_def timer_inv_onDocumentChanged)
next
  case (DidSaveTextDocument doc)
  then show "timer_inv p \<Longrightarrow> ?thesis"
    by (simp add: deliver_def onDocumentSaved_def fire_def timer_inv_def)
qed

lemma timer_inv_run: "timer_inv p \<Longrightarrow> timer_inv (run evs p)"
  by (induction evs arbitrary: p) (auto simp: timer_inv_run_timers timer_inv_deliver)

lemma run_timers_none_due:
  assumes "pending_timer_ok now q"
  shows "run_timers now q = q"
  using assms by (cases q) (auto simp: run_timers_eq pending_timer_ok_def)

lemma onDocumentChanged_qualifying:
  assumes "editor q = Some ed" and "uri (evt_document evt) = uri (document ed)"
    and "contentChanges evt \<noteq> []" and "pending_timer_ok t q"
  shows "onDocumentChanged now evt q =
     q\<lparr>roots := [], documentChangedTimer := Some (nextTimer q),
       timers := [(nextTimer q, now + timer_delay (updateOnTypeDelay q))], nextTimer := Suc (nextTimer q)\<rparr>"
  using assms
  by (cases q)
     (auto simp: onDocumentChanged_def isDocumentForActiveEditor_def clearTimeout_def
        setTimeout_def pending_timer_ok_def Let_def split: option.splits)

lemma run_edits_onType:
  assumes "updateListener q = Some onType" and "editor q = Some ed" and "es \<noteq> []"
    and "\<forall>e \<in> set es. uri (evt_document (snd e)) = uri (document ed) \<and> contentChanges (snd e) \<noteq> []"
    and "spaced_less (timer_delay (updateOnTypeDelay q)) (map fst es)"
    and "pending_timer_ok (fst (hd es)) q"
  shows "run (edits es) q =
     q\<lparr>roots := [], documentChangedTimer := Some (nextTimer q + length es - 1),
       timers := [(nextTimer q + length es - 1, fst (last es) + timer_delay (updateOnTypeDelay q))],
       nextTimer := nextTimer q + length es\<rparr>"
  using assms
proof (induction es arbitrary: q)
  case Nil
  then show ?case by simp
next
  case (Cons e es)
  let ?q = "q\<lparr>roots := [], documentChangedTimer := Some (nextTimer q),
       timers := [(nextTimer q, fst e + timer_delay (updateOnTypeDelay q))], nextTimer := Suc (nextTimer q)\<rparr>"
  from Cons.prems(6) have "run_timers (fst e) q = q"
    by (simp add: run_timers_none_due)
  moreover from Cons.prems(1,2,4,6)
  have "deliver (fst e) (DidChangeTextDocument (snd e)) q = ?q"
    by (simp add: deliver_def onDocumentChanged_qualifying [where t = "fst e"])
  ultimately have step: "run (edits (e # es)) q = run (edits es) ?q"
    by (simp add: edits_def)
  show ?case
  proof (cases es)
    case Nil
    with step show ?thesis by (simp add: edits_def)
  next
    case (Cons e2 es2)
    with Cons.prems(5) have "fst e2 < fst e + timer_delay (updateOnTypeDelay q)"
      and sp: "spaced_less (timer_delay (updateOnTypeDelay ?q)) (map fst es)"
      by simp_all
    then have ok: "pending_timer_ok (fst (hd es)) ?q"
      using Cons by (simp add: pending_timer_ok_def)
    from Cons.prems(1) have l: "updateListener ?q = Some onType" by simp
    from Cons.prems(2) have ed: "editor ?q = Some ed" by simp
    from Cons have ne: "es \<noteq> []" by simp
    from Cons.prems(4) have q: "\<forall>e \<in> set es. uri (evt_document (snd e)) = uri (document ed)
        \<and> contentChanges (snd e) \<noteq> []" by simp
    from Cons.IH [OF l ed ne q sp ok] step ne show ?thesis
      by simp
  qed
qed

text \<open>
  C5, as the code has it. Under \<open>onType\<close> with delay \<open>D\<close> the timer runs for \<open>E\<close>, which is
  \<open>D\<close> when \<open>D\<close> is from 1 to 2147483647 ms and 1 ms otherwise. With no timer pending, a run
  of one or more edits of the active document, each with a content change and each less
  than \<open>E\<close> after the one before, fires no refresh during the run and leaves exactly one
  timer pending, due \<open>E\<close> after the last edit: once the clock reaches that time exactly
  one refresh has fired, and none before. An edit event without content changes leaves
  the provider as it is: the cache is not emptied and no timer is started or restarted.
\<close>

theorem onType_debounce:
  assumes "updateListener p = Some onType" and "editor p = Some ed" and "timers p = []"
    and "es \<noteq> []"
    and "\<forall>e \<in> set es. uri (evt_document (snd e)) = uri (document ed) \<and> contentChanges (snd e) \<noteq> []"
    and "spaced_less (timer_delay (updateOnTypeDelay p)) (map fst es)"
  shows "run (edits es) p =
            p\<lparr>roots := [], documentChangedTimer := Some (nextTimer p + length es - 1),
              timers := [(nextTimer p + length es - 1, fst (last es) + timer_delay (updateOnTypeDelay p))],
              nextTimer := nextTimer p + length es\<rparr>
    \<and> refreshes (run_timers T (run (edits es) p)) =
         refreshes p + (if fst (last es) + timer_delay (updateOnTypeDelay p) \<le> T then 1 else 0)
    \<and> (contentChanges evt = [] \<longrightarrow>
         onDocumentChanged now evt p = p \<and> deliver now (DidChangeTextDocument evt) p = p)"
proof -
  from assms(3) have "pending_timer_ok (fst (hd es)) p"
    by (simp add: pending_timer_ok_def)
  from run_edits_onType [OF assms(1,2,4,5,6) this] have
    r: "run (edits es) p =
            p\<lparr>roots := [], documentChangedTimer := Some (nextTimer p + length es - 1),
              timers := [(nextTimer p + length es - 1, fst (last es) + timer_delay (updateOnTypeDelay p))],
              nextTimer := nextTimer p + length es\<rparr>" .
  then have "refreshes (run_timers T (run (edits es) p)) =
         refreshes p + (if fst (last es) + timer_delay (updateOnTypeDelay p) \<le> T then 1 else 0)"
    by (simp add: run_timers_eq)
  moreover have "onDocumentChanged now evt p = p \<and> deliver now (DidChangeTextDocument evt) p = p"
    if "contentChanges evt = []"
    using that by (simp add: onDocumentChanged_def deliver_def)
  ultimately show ?thesis using r by blast
qed

theorem onType_debounce_witness:
  "run (edits [(0, edit), (60, edit), (120, edit)]) typing =
     typing\<lparr>roots := [], documentChangedTimer := Some 2, timers := [(2, 220)], nextTimer := 3\<rparr>
   \<and> refreshes (run_timers 219 (run (edits [(0, edit), (60, edit), (120, edit)]) typing)) = 0
   \<and> refreshes (run_timers 220 (run (edits [(0, edit), (60, edit), (120, edit)]) typing)) = 1
   \<and> onDocumentChanged 130 (edit\<lparr>contentChanges := []\<rparr>) typing = typing
   \<and> timers (run (edits [(7, edit)]) long_delay) = [(0, 8)]"
proof -
  let ?es = "[(0, edit), (60, edit), (120::int, edit)]"
  have a: "updateListener typing = Some onType" "editor typing = Some go_editor" "timers typing = []"
    "?es \<noteq> []"
    "\<forall>e \<in> set ?es. uri (evt_document (snd e)) = uri (document go_editor) \<and> contentChanges (snd e) \<noteq> []"
    "spaced_less (timer_delay (updateOnTypeDelay typing)) (map fst ?es)"
    by (simp_all add: typing_def new_TreeDataProvider_def setUpdateOn_def setUpdateOnTypeDelay_def
        edit_def timer_delay_def)
  have b: "timer_delay (updateOnTypeDelay typing) = 100" "nextTimer typing = 0" "refreshes typing = 0"
    by (simp_all add: typing_def new_TreeDataProvider_def setUpdateOn_def setUpdateOnTypeDelay_def
        timer_delay_def)
  have c: "updateListener long_delay = Some onType" "editor long_delay = Some go_editor"
    "timers long_delay = []" "[(7::int, edit)] \<noteq> []"
    "\<forall>e \<in> set [(7::int, edit)]. uri (evt_document (snd e)) = uri (document go_editor)
        \<and> contentChanges (snd e) \<noteq> []"
    "spaced_less (timer_delay (updateOnTypeDelay long_delay)) (map fst [(7::int, edit)])"
    by (simp_all add: long_delay_def new_TreeDataProvider_def setUpdateOn_def
        setUpdateOnTypeDelay_def edit_def)
  have d: "timer_delay (updateOnTypeDelay long_delay) = 1" "nextTimer long_delay = 0"
    by (simp_all add: long_delay_def new_TreeDataProvider_def setUpdateOn_def
        setUpdateOnTypeDelay_def timer_delay_def)
  note t = onType_debounce [OF a]
  from t [THEN conjunct1] b
  have "run (edits ?es) typing =
     typing\<lparr>roots := [], documentChangedTimer := Some 2, timers := [(2, 220)], nextTimer := 3\<rparr>"
    by simp
  moreover from t [THEN conjunct2, THEN conjunct1, of 219] b
  have "refreshes (run_timers 219 (run (edits ?es) typing)) = 0" by simp
  moreover from t [THEN conjunct2, THEN conjunct1, of 220] b
  have "refreshes (run_timers 220 (run (edits ?es) typing)) = 1" by simp
  moreover from t [THEN conjunct2, THEN conjunct2, of "edit\<lparr>contentChanges := []\<rparr>" 130]
  have "onDocumentChanged 130 (edit\<lparr>contentChanges := []\<rparr>) typing = typing" by simp
  moreover from onType_debounce [OF c, THEN conjunct1] d
  have "timers (run (edits [(7, edit)]) long_delay) = [(0, 8)]" by simp
  ultimately show ?thesis by (intro conjI)
qed

text \<open>
  With a delay of 2147483648 ms the timer runs for 1 ms. Two edits of the active document
  1000 ms apart, so less than the delay apart, give two refreshes, the first one before
  the second edit and the second one 1 ms after it.
\<close>

theorem onType_debounce_counterexample:
  "updateOnTypeDelay long_delay = 2147483648
   \<and> spaced_less (updateOnTypeDelay long_delay) [0, 1000]
   \<and> refreshes long_delay = 0
   \<and> refreshes (run (edits [(0, edit), (1000, edit)]) long_delay) = 1
   \<and> refreshes (run_timers 1001 (run (edits [(0, edit), (1000, edit)]) long_delay)) = 2"
  by (simp add: long_delay_def new_TreeDataProvider_def setUpdateOn_eq setUpdateOnTypeDelay_def
      edits_def deliver_def onDocumentChanged_def isDocumentForActiveEditor_def edit_def
      go_editor_def setTimeout_def clearTimeout_def timer_delay_def run_timers_eq)

end
